theory Spec2Isabelle
  imports Main "HOL-Library.Word" "HOL-Library.Multiset" "HOL-Library.Sublist"
begin

section \<open>The rule sort-imports-by-length\<close>

text \<open>
  A shallow embedding of \<^verbatim>\<open>lib/rules/sort-imports-by-length.js\<close>: the helper
  predicates on import paths, \<^verbatim>\<open>groupImports\<close>, the per-group sort, the comparison
  loop of the \<^verbatim>\<open>Program\<close> handler, \<^verbatim>\<open>generateFixedCode\<close> and
  \<^verbatim>\<open>getGroupType\<close>.
\<close>

subsection \<open>Strings\<close>

text \<open>
  A JavaScript string is a sequence of UTF-16 code units; \<^verbatim>\<open>.length\<close> counts them
  and a regular expression without the \<^verbatim>\<open>u\<close> flag matches them one at a time.
  \<open>js\<close> writes an ASCII literal as such a sequence.
\<close>

type_synonym code_unit = "16 word"

type_synonym js_string = "code_unit list"

definition cu :: "char \<Rightarrow> code_unit" where
  "cu c = of_nat (of_char c)"

definition js :: "string \<Rightarrow> js_string" where
  "js s = map cu s"

definition LF :: code_unit where
  "LF = 0x0A"

text \<open>
  \<^verbatim>\<open>String.prototype.trim\<close> strips, at both ends, the code units that ECMAScript
  calls WhiteSpace (TAB, VT, FF, ZWNBSP and the space separators) or LineTerminator
  (LF, CR, LS, PS).
\<close>

definition isWhiteSpace :: "code_unit \<Rightarrow> bool" where
  "isWhiteSpace u =
     (u \<in> set [0x09, 0x0B, 0x0C, 0x20, 0xA0, 0x1680, 0x2000, 0x2001, 0x2002, 0x2003,
                0x2004, 0x2005, 0x2006, 0x2007, 0x2008, 0x2009, 0x200A, 0x202F, 0x205F,
                0x3000, 0xFEFF])"

definition isLineTerminator :: "code_unit \<Rightarrow> bool" where
  "isLineTerminator u = (u \<in> set [0x0A, 0x0D, 0x2028, 0x2029])"

definition trimmable :: "code_unit \<Rightarrow> bool" where
  "trimmable u = (isWhiteSpace u \<or> isLineTerminator u)"

definition trim :: "js_string \<Rightarrow> js_string" where
  "trim s = rev (dropWhile trimmable (rev (dropWhile trimmable s)))"

subsection \<open>The regular expressions of the helpers\<close>

text \<open>
  The four patterns are anchored at the start (\<^verbatim>\<open>^\<close>) and built from a literal
  code unit, a negated class \<^verbatim>\<open>[^...]\<close> and one optional item (\<^verbatim>\<open>?\<close>).
  \<open>test\<close> is \<^verbatim>\<open>RegExp.prototype.test\<close> for such a pattern: whether some prefix
  of the string matches.
\<close>

datatype char_class = Lit code_unit | NoneOf "code_unit list"

datatype regex_item = One char_class | Opt char_class

fun class_matches :: "char_class \<Rightarrow> code_unit \<Rightarrow> bool" where
  "class_matches (Lit c) u = (u = c)"
| "class_matches (NoneOf cs) u = (u \<notin> set cs)"

fun test :: "regex_item list \<Rightarrow> js_string \<Rightarrow> bool" where
  "test [] s = True"
| "test (One c # r) [] = False"
| "test (One c # r) (u # s) = (class_matches c u \<and> test r s)"
| "test (Opt c # r) [] = test r []"
| "test (Opt c # r) (u # s) = ((class_matches c u \<and> test r s) \<or> test r (u # s))"

text \<open>\<^verbatim>\<open>/^[^./@]/\<close>\<close>

definition isThirdParty :: "js_string \<Rightarrow> bool" where
  "isThirdParty importPath = test [One (NoneOf (js ''./@''))] importPath"

text \<open>\<^verbatim>\<open>/^@/\<close>\<close>

definition isAtImport :: "js_string \<Rightarrow> bool" where
  "isAtImport importPath = test [One (Lit (cu CHR ''@''))] importPath"

text \<open>\<^verbatim>\<open>/^\.[^./]/\<close>\<close>

definition isSingleDotRelative :: "js_string \<Rightarrow> bool" where
  "isSingleDotRelative importPath =
     test [One (Lit (cu CHR ''.'')), One (NoneOf (js ''./''))] importPath"

text \<open>\<^verbatim>\<open>/^\.\.?\//\<close>\<close>

definition isMultiDotRelative :: "js_string \<Rightarrow> bool" where
  "isMultiDotRelative importPath =
     test [One (Lit (cu CHR ''.'')), Opt (Lit (cu CHR ''.'')), One (Lit (cu CHR ''/''))]
       importPath"

subsection \<open>Import declarations\<close>

text \<open>
  An \<^verbatim>\<open>ImportDeclaration\<close> node, with the three properties the rule reads:
  \<^verbatim>\<open>source.value\<close>, \<^verbatim>\<open>importKind\<close> (absent unless the parser sets it) and
  \<^verbatim>\<open>range\<close>. The rule compares nodes with \<^verbatim>\<open>!==\<close>, by reference; two nodes of
  one program body never share a range, so equality of the record stands for it, and a
  list that repeats a record is a list that holds one node twice.
\<close>

record import_node =
  source_value :: js_string
  importKind :: "js_string option"
  node_range :: "nat \<times> nat"

text \<open>
  \<^verbatim>\<open>sourceCode.getText\<close> belongs to the host; the rule only calls it on import
  nodes, so it is a parameter here: any function from nodes to strings.
\<close>

type_synonym source_code = "import_node \<Rightarrow> js_string"

definition getText :: "source_code \<Rightarrow> import_node \<Rightarrow> js_string" where
  "getText sourceCode node = sourceCode node"

definition isTypeImport :: "import_node \<Rightarrow> bool" where
  "isTypeImport node = (importKind node = Some (js ''type''))"

subsection \<open>getGroupType and groupImports\<close>

text \<open>\<open>None\<close> is \<^verbatim>\<open>undefined\<close>: the function falls off its last \<^verbatim>\<open>else if\<close>.\<close>

definition getGroupType :: "import_node \<Rightarrow> nat option" where
  "getGroupType node =
     (let importPath = source_value node in
      if isThirdParty importPath then Some 0
      else if isAtImport importPath then Some 1
      else if isSingleDotRelative importPath then Some 2
      else if isMultiDotRelative importPath then Some 3
      else if isTypeImport node then Some 4
      else None)"

text \<open>\<^verbatim>\<open>groups[k].push(node)\<close>, for an index \<open>k\<close> of the five groups.\<close>

definition push :: "nat \<Rightarrow> import_node \<Rightarrow> import_node list list \<Rightarrow> import_node list list" where
  "push k node groups = groups[k := groups ! k @ [node]]"

text \<open>The body of the \<^verbatim>\<open>forEach\<close> in \<^verbatim>\<open>groupImports\<close>.\<close>

definition place :: "import_node \<Rightarrow> import_node list list \<Rightarrow> import_node list list" where
  "place node groups =
     (let importPath = source_value node in
      if isThirdParty importPath then push 0 node groups
      else if isAtImport importPath then push 1 node groups
      else if isSingleDotRelative importPath then push 2 node groups
      else if isMultiDotRelative importPath then push 3 node groups
      else if isTypeImport node then push 4 node groups
      else groups)"

definition groupImports :: "import_node list \<Rightarrow> import_node list list" where
  "groupImports importNodes =
     (let groups = fold place importNodes [[], [], [], [], []]
      in filter (\<lambda>group. length group > 0) groups)"

subsection \<open>Sorting a group\<close>

text \<open>
  \<^verbatim>\<open>Array.prototype.sort\<close> with a comparator is a stable sort (ECMAScript 2019
  on); for a comparator that is a consistent ordering, as a difference of lengths is,
  the result is determined: the elements in ascending order, equal ones in their
  original order. \<open>sort_with\<close> computes it by insertion.
\<close>

definition compareFn :: "source_code \<Rightarrow> import_node \<Rightarrow> import_node \<Rightarrow> int" where
  "compareFn sourceCode a b =
     (let aLength = int (length (getText sourceCode a));
          bLength = int (length (getText sourceCode b))
      in aLength - bLength)"

fun insert_with :: "('a \<Rightarrow> 'a \<Rightarrow> int) \<Rightarrow> 'a \<Rightarrow> 'a list \<Rightarrow> 'a list" where
  "insert_with cmp x [] = [x]"
| "insert_with cmp x (y # ys) =
     (if cmp x y \<le> 0 then x # y # ys else y # insert_with cmp x ys)"

fun sort_with :: "('a \<Rightarrow> 'a \<Rightarrow> int) \<Rightarrow> 'a list \<Rightarrow> 'a list" where
  "sort_with cmp [] = []"
| "sort_with cmp (x # xs) = insert_with cmp x (sort_with cmp xs)"

text \<open>
  The \<^verbatim>\<open>forEach\<close> over \<^verbatim>\<open>groupedImports\<close> in the handler: each group is
  copied, sorted and appended to \<^verbatim>\<open>sortedImports\<close>.
\<close>

definition sortGroups :: "source_code \<Rightarrow> import_node list list \<Rightarrow> import_node list" where
  "sortGroups sourceCode groupedImports =
     fold (\<lambda>group sortedImports. sortedImports @ sort_with (compareFn sourceCode) group)
       groupedImports []"

definition sortedImports :: "source_code \<Rightarrow> import_node list \<Rightarrow> import_node list" where
  "sortedImports sourceCode importNodes = sortGroups sourceCode (groupImports importNodes)"

subsection \<open>generateFixedCode\<close>

text \<open>
  The loop state is \<^verbatim>\<open>code\<close> and \<^verbatim>\<open>currentGroupType\<close>; the latter starts as
  \<^verbatim>\<open>null\<close> (\<open>None\<close>) and then holds what \<^verbatim>\<open>getGroupType\<close> returned, a number
  or \<^verbatim>\<open>undefined\<close>.
\<close>

record gen_state =
  code :: js_string
  currentGroupType :: "nat option option"

definition emit :: "source_code \<Rightarrow> nat \<times> import_node \<Rightarrow> gen_state \<Rightarrow> gen_state" where
  "emit sourceCode p st =
     (let index = fst p; node = snd p;
          groupType = getGroupType node;
          code1 = (if currentGroupType st \<noteq> Some groupType \<and> index \<noteq> 0
                   then code st @ [LF] else code st)
      in \<lparr>code = code1 @ getText sourceCode node @ [LF], currentGroupType = Some groupType\<rparr>)"

definition generateFixedCode :: "import_node list \<Rightarrow> source_code \<Rightarrow> js_string" where
  "generateFixedCode nodes sourceCode =
     trim (code (fold (emit sourceCode) (enumerate 0 nodes)
                   \<lparr>code = [], currentGroupType = None\<rparr>))"

subsection \<open>The Program handler\<close>

text \<open>
  A call of \<^verbatim>\<open>context.report\<close>: the node, the message, and what the \<^verbatim>\<open>fix\<close>
  callback returns, \<^verbatim>\<open>fixer.replaceTextRange(range, text)\<close>.
\<close>

record replacement =
  fix_range :: "nat \<times> nat"
  fix_text :: js_string

record report =
  report_node :: import_node
  message :: string
  report_fix :: replacement

text \<open>\<^verbatim>\<open>xs[i]\<close>: \<^verbatim>\<open>undefined\<close> (\<open>None\<close>) past the end of the array.\<close>

definition at_index :: "'a list \<Rightarrow> nat \<Rightarrow> 'a option" where
  "at_index xs i = (if i < length xs then Some (xs ! i) else None)"

definition make_fix :: "source_code \<Rightarrow> import_node list \<Rightarrow> import_node list \<Rightarrow> replacement" where
  "make_fix sourceCode importNodes sortedNodes =
     (let fixedCode = generateFixedCode sortedNodes sourceCode;
          firstImport = importNodes ! 0;
          lastImport = importNodes ! (length importNodes - 1)
      in \<lparr>fix_range = (fst (node_range firstImport), snd (node_range lastImport)),
          fix_text = fixedCode\<rparr>)"

text \<open>
  The comparison loop, from index \<open>i\<close> on. It returns the reports made: the
  \<^verbatim>\<open>break\<close> leaves the loop after the first.
\<close>

function compare_from ::
  "source_code \<Rightarrow> import_node list \<Rightarrow> import_node list \<Rightarrow> nat \<Rightarrow> report list" where
  "compare_from sourceCode importNodes sortedNodes i =
     (if i < length importNodes then
        (if Some (importNodes ! i) \<noteq> at_index sortedNodes i then
           [\<lparr>report_node = importNodes ! i,
             message = ''Imports are not sorted correctly.'',
             report_fix = make_fix sourceCode importNodes sortedNodes\<rparr>]
         else compare_from sourceCode importNodes sortedNodes (i + 1))
      else [])"
  by pat_completeness auto
termination
  by (relation "measure (\<lambda>(sourceCode, importNodes, sortedNodes, i). length importNodes - i)") auto

declare compare_from.simps [simp del]

text \<open>
  The handler. Its input here is \<^verbatim>\<open>importNodes\<close>, the statements of
  \<^verbatim>\<open>node.body\<close> whose type is \<^verbatim>\<open>ImportDeclaration\<close>, in source order; the
  other statements play no part. It returns the reports it makes.
\<close>

definition Program :: "source_code \<Rightarrow> import_node list \<Rightarrow> report list" where
  "Program sourceCode importNodes =
     (if length importNodes = 0 then []
      else compare_from sourceCode importNodes (sortedImports sourceCode importNodes) 0)"

text \<open>
  The decision the handler's reports amount to: no report, or a report with its
  replacement text.
\<close>

datatype decision = Compliant | Violation js_string

definition analyze :: "source_code \<Rightarrow> import_node list \<Rightarrow> decision" where
  "analyze sourceCode statements =
     (case Program sourceCode statements of
        [] \<Rightarrow> Compliant
      | r # _ \<Rightarrow> Violation (fix_text (report_fix r)))"

subsection \<open>The categories of a list\<close>

text \<open>The statements of one category, in input order.\<close>

definition bucket :: "nat \<Rightarrow> import_node list \<Rightarrow> import_node list" where
  "bucket k ns = filter (\<lambda>n. getGroupType n = Some k) ns"

subsection \<open>The replacement text and its application, as the specification words them\<close>

text \<open>
  The text before trimming, in the specification's words: each statement's rendered
  text followed by a line break, with one more line break (a blank line) before a
  statement whose category differs from that of the statement emitted just before it.
  \<open>prev\<close> is that statement, \<open>None\<close> for the first.
\<close>

fun spec_assemble :: "source_code \<Rightarrow> import_node option \<Rightarrow> import_node list \<Rightarrow> js_string" where
  "spec_assemble sc prev [] = []"
| "spec_assemble sc prev (n # ns) =
     (case prev of
        None \<Rightarrow> []
      | Some p \<Rightarrow> if getGroupType n \<noteq> getGroupType p then [LF] else [])
     @ getText sc n @ [LF] @ spec_assemble sc (Some n) ns"

text \<open>
  Modelled from the spec: the host's application of a fix, which is not part of the
  rule. The text of the range is replaced by the fix's text and the rest of the file
  is kept: \<^verbatim>\<open>text.slice(0, start) + fix.text + text.slice(end)\<close>.
\<close>

definition applyFix :: "replacement \<Rightarrow> js_string \<Rightarrow> js_string" where
  "applyFix f text =
     take (fst (fix_range f)) text @ fix_text f @ drop (snd (fix_range f)) text"

subsection \<open>Example inputs\<close>

text \<open>
  The host's \<^verbatim>\<open>getText\<close> returns the text of the file between the node's range
  offsets. The examples below are files with their import declarations.
\<close>

definition sliceText :: "js_string \<Rightarrow> source_code" where
  "sliceText text node =
     (case node_range node of (start, end) \<Rightarrow> take (end - start) (drop start text))"

text \<open>A comment line, then a third-party, a relative and a scoped import, then code.\<close>

definition scenario_file :: js_string where
  "scenario_file =
     js ''// app'' @ [LF] @
     js ''import z from \"longmodulename\"'' @ [LF] @
     js ''import a from \"./x\"'' @ [LF] @
     js ''import {B} from \"@scope/pkg\"'' @ [LF] @
     js ''z(a, B);''"

definition stmt_long :: import_node where
  "stmt_long =
     \<lparr>source_value = js ''longmodulename'', importKind = None, node_range = (7, 37)\<rparr>"

definition stmt_rel :: import_node where
  "stmt_rel = \<lparr>source_value = js ''./x'', importKind = None, node_range = (38, 57)\<rparr>"

definition stmt_scoped :: import_node where
  "stmt_scoped =
     \<lparr>source_value = js ''@scope/pkg'', importKind = None, node_range = (58, 86)\<rparr>"

text \<open>Three third-party imports: two of equal length, then a shorter one.\<close>

definition ties_file :: js_string where
  "ties_file =
     js ''import b from \"bb\"'' @ [LF] @
     js ''import a from \"aa\"'' @ [LF] @
     js ''import c from \"c\"'' @ [LF]"

definition stmt_bb :: import_node where
  "stmt_bb = \<lparr>source_value = js ''bb'', importKind = None, node_range = (0, 18)\<rparr>"

definition stmt_aa :: import_node where
  "stmt_aa = \<lparr>source_value = js ''aa'', importKind = None, node_range = (19, 37)\<rparr>"

definition stmt_c :: import_node where
  "stmt_c = \<lparr>source_value = js ''c'', importKind = None, node_range = (38, 55)\<rparr>"

text \<open>An import from an absolute path, followed by a third-party import.\<close>

definition absolute_file :: js_string where
  "absolute_file =
     js ''import s from \"/srv/x\"'' @ [LF] @
     js ''import r from \"react\"'' @ [LF]"

definition stmt_abs :: import_node where
  "stmt_abs = \<lparr>source_value = js ''/srv/x'', importKind = None, node_range = (0, 22)\<rparr>"

definition stmt_react :: import_node where
  "stmt_react = \<lparr>source_value = js ''react'', importKind = None, node_range = (23, 44)\<rparr>"

text \<open>The report the handler makes on the first example.\<close>

definition scenario_report :: report where
  "scenario_report =
     \<lparr>report_node = stmt_rel, message = ''Imports are not sorted correctly.'',
      report_fix = \<lparr>fix_range = (7, 86),
        fix_text = js ''import z from \"longmodulename\"'' @ [LF, LF] @
          js ''import {B} from \"@scope/pkg\"'' @ [LF, LF] @
          js ''import a from \"./x\"''\<rparr>\<rparr>"

text \<open>
  The first example after the fix, and the two import declarations that have moved, as
  a parser finds them there.
\<close>

definition fixed_file :: js_string where
  "fixed_file = applyFix (report_fix scenario_report) scenario_file"

definition fixed_scoped :: import_node where
  "fixed_scoped =
     \<lparr>source_value = js ''@scope/pkg'', importKind = None, node_range = (39, 67)\<rparr>"

definition fixed_rel :: import_node where
  "fixed_rel = \<lparr>source_value = js ''./x'', importKind = None, node_range = (69, 88)\<rparr>"

section \<open>Properties\<close>

subsection \<open>The path predicates\<close>

lemma cu_neq:
  "cu CHR ''.'' \<noteq> cu CHR ''/''" "cu CHR ''.'' \<noteq> cu CHR ''@''"
  "cu CHR ''/'' \<noteq> cu CHR ''@''" "cu CHR ''/'' \<noteq> cu CHR ''.''"
  "cu CHR ''@'' \<noteq> cu CHR ''.''" "cu CHR ''@'' \<noteq> cu CHR ''/''"
  by (simp_all add: cu_def)

lemma isThirdParty_iff:
  "isThirdParty s \<longleftrightarrow> (s \<noteq> [] \<and> hd s \<notin> {cu CHR ''.'', cu CHR ''/'', cu CHR ''@''})"
  by (cases s) (auto simp: isThirdParty_def js_def)

lemma isAtImport_iff: "isAtImport s \<longleftrightarrow> (\<exists>r. s = cu CHR ''@'' # r)"
  by (cases s) (auto simp: isAtImport_def)

lemma isSingleDotRelative_iff:
  "isSingleDotRelative s \<longleftrightarrow>
     (\<exists>u r. s = cu CHR ''.'' # u # r \<and> u \<noteq> cu CHR ''.'' \<and> u \<noteq> cu CHR ''/'')"
  by (cases s; cases "tl s") (auto simp: isSingleDotRelative_def js_def)

lemma isMultiDotRelative_iff:
  "isMultiDotRelative s \<longleftrightarrow>
     ((\<exists>r. s = cu CHR ''.'' # cu CHR ''/'' # r) \<or>
      (\<exists>r. s = cu CHR ''.'' # cu CHR ''.'' # cu CHR ''/'' # r))"
  by (cases s; cases "tl s"; cases "tl (tl s)") (auto simp: isMultiDotRelative_def cu_neq)

lemma getGroupType_less: "getGroupType n = Some k \<Longrightarrow> k < 5"
  by (auto simp: getGroupType_def Let_def split: if_splits)

subsection \<open>groupImports builds the five categories\<close>

lemma place_eq:
  "place n gs = (case getGroupType n of None \<Rightarrow> gs | Some k \<Rightarrow> push k n gs)"
  by (simp add: place_def getGroupType_def Let_def)

lemma length_place [simp]: "length (place n gs) = length gs"
  by (simp add: place_eq push_def split: option.split)

lemma length_fold_place [simp]: "length (fold place ns gs) = length gs"
  by (induction ns arbitrary: gs) simp_all

lemma nth_place:
  "k < length gs \<Longrightarrow>
   place n gs ! k = (if getGroupType n = Some k then gs ! k @ [n] else gs ! k)"
  by (auto simp: place_eq push_def nth_list_update split: option.split)

lemma nth_fold_place:
  "k < length gs \<Longrightarrow>
   fold place ns gs ! k = gs ! k @ filter (\<lambda>n. getGroupType n = Some k) ns"
  by (induction ns arbitrary: gs) (simp_all add: nth_place)

lemma list5: "length xs = 5 \<Longrightarrow> xs = [xs ! 0, xs ! 1, xs ! 2, xs ! 3, xs ! 4]"
  by (rule nth_equalityI) (auto simp: nth_Cons' less_Suc_eq numeral_eq_Suc)

lemma fold_place_init:
  "fold place ns [[], [], [], [], []] = map (\<lambda>k. bucket k ns) [0, 1, 2, 3, 4]"
proof -
  let ?gs = "[[], [], [], [], []] :: import_node list list"
  have "length (fold place ns ?gs) = 5" by simp
  from list5 [OF this] show ?thesis
    by (simp add: nth_fold_place bucket_def)
qed

lemma groupImports_eq:
  "groupImports ns = filter (\<lambda>g. g \<noteq> []) (map (\<lambda>k. bucket k ns) [0, 1, 2, 3, 4])"
  by (simp only: groupImports_def Let_def fold_place_init length_greater_0_conv)

subsection \<open>The sort and the concatenation\<close>

lemma insert_with_compareFn:
  "insert_with (compareFn sc) x ys = insort_key (\<lambda>n. length (sc n)) x ys"
  by (induction ys) (simp_all add: compareFn_def getText_def Let_def)

lemma sort_with_compareFn:
  "sort_with (compareFn sc) xs = sort_key (\<lambda>n. length (sc n)) xs"
  by (induction xs) (simp_all add: insert_with_compareFn)

lemma fold_append_concat:
  "fold (\<lambda>g acc. acc @ f g) gs acc0 = acc0 @ concat (map f gs)"
  by (induction gs arbitrary: acc0) simp_all

lemma sortGroups_eq:
  "sortGroups sc gs = concat (map (sort_key (\<lambda>n. length (sc n))) gs)"
  by (simp add: sortGroups_def fold_append_concat sort_with_compareFn [abs_def])

lemma concat_map_filter_nonempty:
  "f [] = [] \<Longrightarrow> concat (map f (filter (\<lambda>g. g \<noteq> []) gs)) = concat (map f gs)"
  by (induction gs) simp_all

lemma sortedImports_eq:
  "sortedImports sc ns =
     concat (map (\<lambda>k. sort_key (\<lambda>n. length (sc n)) (bucket k ns)) [0, 1, 2, 3, 4])"
  by (simp add: sortedImports_def sortGroups_eq groupImports_eq concat_map_filter_nonempty
        del: map_map)

lemma filter_group_sorted_bucket:
  "filter (\<lambda>n. getGroupType n = Some j) (sort_key f (bucket k ns)) =
     (if j = k then sort_key f (bucket k ns) else [])"
  by (auto simp: filter_sort bucket_def filter_empty_conv
        intro: arg_cong [where f = "sort_key f"] filter_True)

lemma bucket_sortedImports:
  "bucket j (sortedImports sc ns) = sort_key (\<lambda>n. length (sc n)) (bucket j ns)"
proof (cases "j < 5")
  case True
  then have "j = 0 \<or> j = 1 \<or> j = 2 \<or> j = 3 \<or> j = 4" by arith
  then show ?thesis
    by (auto simp: sortedImports_eq bucket_def [of j "_ @ _"] bucket_def [of j "sort_key _ _"]
          filter_group_sorted_bucket)
next
  case False
  then have "bucket j xs = []" for xs
    by (auto simp: bucket_def filter_empty_conv dest: getGroupType_less)
  then show ?thesis by simp
qed

lemma sortedImports_idem:
  "sortedImports sc (sortedImports sc ns) = sortedImports sc ns"
  by (simp add: sortedImports_eq [of sc "sortedImports sc ns"] bucket_sortedImports
        sort_key_id_if_sorted) (simp add: sortedImports_eq)

lemma mset_buckets:
  "mset (bucket 0 ns) + mset (bucket 1 ns) + mset (bucket 2 ns) + mset (bucket 3 ns)
     + mset (bucket 4 ns) = mset (filter (\<lambda>n. getGroupType n \<noteq> None) ns)"
proof (induction ns)
  case Nil
  then show ?case by (simp add: bucket_def)
next
  case (Cons n ns)
  show ?case
  proof (cases "getGroupType n")
    case None
    with Cons show ?thesis by (simp add: bucket_def)
  next
    case (Some k)
    then have "k = 0 \<or> k = 1 \<or> k = 2 \<or> k = 3 \<or> k = 4"
      using getGroupType_less [of n k] by arith
    with Some Cons show ?thesis by (auto simp: bucket_def)
  qed
qed

lemma mset_sortedImports:
  "mset (sortedImports sc ns) = mset (filter (\<lambda>n. getGroupType n \<noteq> None) ns)"
proof -
  have "mset (sortedImports sc ns) =
      mset (bucket 0 ns) + mset (bucket 1 ns) + mset (bucket 2 ns) + mset (bucket 3 ns)
        + mset (bucket 4 ns)"
    by (simp add: sortedImports_eq)
  also note mset_buckets
  finally show ?thesis .
qed

subsection \<open>The comparison loop\<close>

lemma compare_from_same: "compare_from sc xs xs i = []"
proof (induction "length xs - i" arbitrary: i)
  case 0
  then show ?case by (simp add: compare_from.simps)
next
  case (Suc d)
  then have "d = length xs - (i + 1)" "i < length xs" by simp_all
  with Suc.hyps(1) [of "i + 1"] show ?case
    by (subst compare_from.simps) (simp add: at_index_def)
qed

lemma compare_from_find:
  "compare_from sc ns S i =
     (case find (\<lambda>j. Some (ns ! j) \<noteq> at_index S j) [i..<length ns] of
        None \<Rightarrow> []
      | Some j \<Rightarrow> [\<lparr>report_node = ns ! j, message = ''Imports are not sorted correctly.'',
                    report_fix = make_fix sc ns S\<rparr>])"
proof (induction sc ns S i rule: compare_from.induct)
  case (1 sc ns S i)
  show ?case
  proof (cases "i < length ns")
    case True
    then have "[i..<length ns] = i # [i + 1..<length ns]"
      by (simp add: upt_conv_Cons)
    with True 1 show ?thesis
      by (subst compare_from.simps) simp
  next
    case False
    then show ?thesis by (subst compare_from.simps) simp
  qed
qed

lemma Program_find:
  "Program sc ns =
     (case find (\<lambda>j. Some (ns ! j) \<noteq> at_index (sortedImports sc ns) j) [0..<length ns] of
        None \<Rightarrow> []
      | Some j \<Rightarrow> [\<lparr>report_node = ns ! j, message = ''Imports are not sorted correctly.'',
                    report_fix = make_fix sc ns (sortedImports sc ns)\<rparr>])"
  by (simp add: Program_def compare_from_find)

subsection \<open>Equal lengths keep their order\<close>

lemma filter_tie_sortedImports:
  "filter (\<lambda>n. getGroupType n = Some c \<and> length (sc n) = l) (sortedImports sc ns) =
   filter (\<lambda>n. getGroupType n = Some c \<and> length (sc n) = l) ns"
proof -
  have "filter (\<lambda>n. getGroupType n = Some c \<and> length (sc n) = l) xs =
      filter (\<lambda>n. length (sc n) = l) (bucket c xs)" for xs
    by (simp add: bucket_def conj_commute)
  then show ?thesis
    by (simp add: bucket_sortedImports sort_key_stable)
qed

lemma filter_eq_appendD:
  "filter P xs = us @ vs \<Longrightarrow>
   \<exists>xs1 xs2. xs = xs1 @ xs2 \<and> filter P xs1 = us \<and> filter P xs2 = vs"
proof (induction xs arbitrary: us)
  case Nil
  then show ?case by simp
next
  case (Cons x xs)
  show ?case
  proof (cases "P x")
    case False
    with Cons.prems have "filter P xs = us @ vs" by simp
    from Cons.IH [OF this] obtain xs1 xs2
      where "xs = xs1 @ xs2" "filter P xs1 = us" "filter P xs2 = vs" by blast
    with False have "x # xs = (x # xs1) @ xs2 \<and> filter P (x # xs1) = us \<and> filter P xs2 = vs"
      by simp
    then show ?thesis by blast
  next
    case True
    show ?thesis
    proof (cases us)
      case Nil
      with Cons.prems have "x # xs = [] @ (x # xs) \<and> filter P [] = us \<and> filter P (x # xs) = vs"
        by simp
      then show ?thesis by blast
    next
      case (Cons u us')
      with True Cons.prems have "filter P xs = us' @ vs" "u = x" by simp_all
      from Cons.IH [OF this(1)] obtain xs1 xs2
        where "xs = xs1 @ xs2" "filter P xs1 = us'" "filter P xs2 = vs" by blast
      with True Cons \<open>u = x\<close>
      have "x # xs = (x # xs1) @ xs2 \<and> filter P (x # xs1) = us \<and> filter P xs2 = vs"
        by simp
      then show ?thesis by blast
    qed
  qed
qed

lemma filter_eq_snocD:
  assumes "filter P xs = us @ a # vs"
  shows "\<exists>xs1 xs2. xs = xs1 @ a # xs2 \<and> filter P xs2 = vs"
proof -
  from filter_eq_appendD [OF assms] obtain ys zs
    where xs: "xs = ys @ zs" and "filter P zs = a # vs" by blast
  then obtain ws ts where "zs = ws @ a # ts" "vs = filter P ts"
    by (auto simp: filter_eq_Cons_iff)
  with xs have "xs = (ys @ ws) @ a # ts \<and> filter P ts = vs" by simp
  then show ?thesis by blast
qed

lemma filter_eq_keeps_order:
  assumes eq: "filter P xs = filter P ys"
    and ij: "i < j" "j < length ys" and P: "P (ys ! i)" "P (ys ! j)"
  shows "\<exists>i' j'. i' < j' \<and> j' < length xs \<and> xs ! i' = ys ! i \<and> xs ! j' = ys ! j"
proof -
  from ij have "i < length ys" by simp
  have 1: "ys = take i ys @ ys ! i # drop (Suc i) ys"
    by (rule id_take_nth_drop) fact
  let ?r = "drop (Suc i) ys"
  from ij have jr: "j - Suc i < length ?r" and rj: "?r ! (j - Suc i) = ys ! j" by simp_all
  have 2: "?r = take (j - Suc i) ?r @ ys ! j # drop (Suc (j - Suc i)) ?r"
    using id_take_nth_drop [OF jr] rj by simp
  have "filter P ys = filter P (take i ys) @ ys ! i #
      filter P (take (j - Suc i) ?r) @ ys ! j # filter P (drop (Suc (j - Suc i)) ?r)"
    by (subst 1, subst 2) (simp add: P)
  with eq have "filter P xs = filter P (take i ys) @ ys ! i #
      (filter P (take (j - Suc i) ?r) @ ys ! j # filter P (drop (Suc (j - Suc i)) ?r))"
    by simp
  from filter_eq_snocD [OF this] obtain X R where xs: "xs = X @ ys ! i # R"
    and "filter P R =
      filter P (take (j - Suc i) ?r) @ ys ! j # filter P (drop (Suc (j - Suc i)) ?r)"
    by blast
  from filter_eq_snocD [OF this(2)] obtain Y Z where R: "R = Y @ ys ! j # Z" by blast
  let ?i' = "length X" and ?j' = "length X + Suc (length Y)"
  have "?i' < ?j'" "?j' < length xs" "xs ! ?i' = ys ! i"
    by (simp_all add: xs R)
  moreover have "xs ! ?j' = ys ! j"
    by (simp add: xs R nth_append)
  ultimately show ?thesis by blast
qed

lemma distinct_sortedImports: "distinct ns \<Longrightarrow> distinct (sortedImports sc ns)"
proof -
  assume "distinct ns"
  then have "distinct (filter (\<lambda>n. getGroupType n \<noteq> None) ns)" by simp
  then show ?thesis
    using mset_sortedImports [of sc ns] by (metis mset_eq_imp_distinct_iff)
qed

subsection \<open>The generated text\<close>

lemma fold_emit:
  "(k = 0 \<longleftrightarrow> prev = None) \<Longrightarrow> (\<And>p. prev = Some p \<Longrightarrow> cur = Some (getGroupType p)) \<Longrightarrow>
   code (fold (emit sc) (enumerate k nodes) \<lparr>code = c, currentGroupType = cur\<rparr>) =
     c @ spec_assemble sc prev nodes"
proof (induction nodes arbitrary: k prev c cur)
  case Nil
  then show ?case by simp
next
  case (Cons n nodes)
  let ?sep = "case prev of None \<Rightarrow> []
    | Some p \<Rightarrow> if getGroupType n \<noteq> getGroupType p then [LF] else []"
  have step: "emit sc (k, n) \<lparr>code = c, currentGroupType = cur\<rparr> =
      \<lparr>code = (c @ ?sep) @ getText sc n @ [LF], currentGroupType = Some (getGroupType n)\<rparr>"
    using Cons.prems by (cases prev) (auto simp: emit_def Let_def)
  have IH: "code (fold (emit sc) (enumerate (Suc k) nodes)
        \<lparr>code = c', currentGroupType = Some (getGroupType n)\<rparr>) =
      c' @ spec_assemble sc (Some n) nodes" for c'
    by (rule Cons.IH) simp_all
  show ?case
    by (simp only: enumerate_simps fold_simps comp_apply step IH) simp
qed

lemma generateFixedCode_eq:
  "generateFixedCode nodes sc = trim (spec_assemble sc None nodes)"
proof -
  have "code (fold (emit sc) (enumerate 0 nodes) \<lparr>code = [], currentGroupType = None\<rparr>) =
      [] @ spec_assemble sc None nodes"
    by (rule fold_emit) simp_all
  then show ?thesis by (simp add: generateFixedCode_def)
qed

lemma trim_no_trailing:
  "trim s = [] \<or> \<not> trimmable (last (trim s))"
proof -
  let ?t = "dropWhile trimmable (rev (dropWhile trimmable s))"
  show ?thesis
  proof (cases ?t)
    case Nil
    then show ?thesis by (simp add: trim_def)
  next
    case (Cons u us)
    then have "\<not> trimmable u" by (metis hd_dropWhile list.sel(1) list.distinct(1))
    with Cons show ?thesis by (simp add: trim_def)
  qed
qed

lemma assemble_last:
  "nodes \<noteq> [] \<Longrightarrow> \<exists>pre. spec_assemble sc prev nodes = pre @ getText sc (last nodes) @ [LF]"
proof (induction nodes arbitrary: prev)
  case Nil
  then show ?case by simp
next
  case (Cons n nodes)
  show ?case
  proof (cases "nodes = []")
    case True
    then show ?thesis by simp
  next
    case False
    from Cons.IH [OF this, of "Some n"] obtain pre
      where "spec_assemble sc (Some n) nodes = pre @ getText sc (last nodes) @ [LF]" by blast
    with False have "spec_assemble sc prev (n # nodes) =
        ((case prev of None \<Rightarrow> []
          | Some p \<Rightarrow> if getGroupType n \<noteq> getGroupType p then [LF] else [])
         @ getText sc n @ [LF] @ pre) @ getText sc (last (n # nodes)) @ [LF]"
      by simp
    then show ?thesis by blast
  qed
qed

lemma trimmable_LF: "trimmable LF"
  by (simp add: trimmable_def isLineTerminator_def LF_def)

lemma trim_butlast:
  assumes "s = t @ rest" "t \<noteq> []" "\<not> trimmable (hd t)"
    and "s = pre @ e @ [LF]" "e \<noteq> []" "\<not> trimmable (last e)"
  shows "trim s = butlast s"
proof -
  from assms(1-3) have "dropWhile trimmable s = s"
    by (cases t) simp_all
  moreover from assms(5) have "rev s = LF # rev e @ rev pre" "rev e \<noteq> []"
    by (simp_all add: assms(4))
  moreover from assms(5,6) have "\<not> trimmable (hd (rev e))"
    by (simp add: hd_rev)
  ultimately have "dropWhile trimmable (rev (dropWhile trimmable s)) = rev e @ rev pre"
    by (cases "rev e") (simp_all add: trimmable_LF)
  then have "trim s = pre @ e" by (simp add: trim_def)
  moreover have "butlast s = pre @ e"
    using butlast_snoc [of "pre @ e" LF] by (simp add: assms(4))
  ultimately show ?thesis by simp
qed

lemma generateFixedCode_butlast:
  assumes "nodes \<noteq> []"
    and "getText sc (hd nodes) \<noteq> []" "\<not> trimmable (hd (getText sc (hd nodes)))"
    and "getText sc (last nodes) \<noteq> []" "\<not> trimmable (last (getText sc (last nodes)))"
  shows "generateFixedCode nodes sc = butlast (spec_assemble sc None nodes)"
proof -
  from assms(1) obtain n ns where nodes: "nodes = n # ns" by (cases nodes) auto
  then have 1: "spec_assemble sc None nodes = getText sc (hd nodes) @ ([LF] @ spec_assemble sc (Some n) ns)"
    by simp
  from assemble_last [OF assms(1)] obtain pre
    where 2: "spec_assemble sc None nodes = pre @ getText sc (last nodes) @ [LF]" by blast
  from trim_butlast [OF 1 assms(2,3) 2 assms(4,5)] show ?thesis
    by (simp add: generateFixedCode_eq)
qed

subsection \<open>The reported fix\<close>

lemma make_fix_range:
  "ns \<noteq> [] \<Longrightarrow>
   fix_range (make_fix sc ns S) = (fst (node_range (hd ns)), snd (node_range (last ns)))"
  by (simp add: make_fix_def Let_def hd_conv_nth last_conv_nth)

lemma Program_reportD:
  assumes "r \<in> set (Program sc ns)"
  shows "ns \<noteq> [] \<and> report_fix r = make_fix sc ns (sortedImports sc ns)"
  using assms by (auto simp: Program_find split: option.splits)

subsection \<open>Statements without a category\<close>

lemma getGroupType_None_iff:
  "getGroupType n = None \<longleftrightarrow>
     \<not> isThirdParty (source_value n) \<and> \<not> isAtImport (source_value n)
     \<and> \<not> isSingleDotRelative (source_value n) \<and> \<not> isMultiDotRelative (source_value n)
     \<and> \<not> isTypeImport n"
  by (simp add: getGroupType_def Let_def)

lemma set_sortedImports:
  "set (sortedImports sc ns) = {n \<in> set ns. getGroupType n \<noteq> None}"
proof -
  have "set (sortedImports sc ns) = set_mset (mset (sortedImports sc ns))" by simp
  also have "\<dots> = {n \<in> set ns. getGroupType n \<noteq> None}"
    by (simp only: mset_sortedImports set_mset_mset set_filter)
  finally show ?thesis .
qed

lemma groupImports_bucket: "g \<in> set (groupImports ns) \<Longrightarrow> \<exists>k. g = bucket k ns"
  by (simp only: groupImports_eq set_filter set_map) blast

lemma set_groupImports:
  "g \<in> set (groupImports ns) \<Longrightarrow> set g \<subseteq> {n \<in> set ns. getGroupType n \<noteq> None}"
  by (drule groupImports_bucket) (auto simp: bucket_def)

lemma insort_key_cong_set:
  "f x = g x \<Longrightarrow> (\<And>y. y \<in> set ys \<Longrightarrow> f y = g y) \<Longrightarrow> insort_key f x ys = insort_key g x ys"
  by (induction ys) simp_all

lemma sort_key_cong_set:
  "(\<And>x. x \<in> set xs \<Longrightarrow> f x = g x) \<Longrightarrow> sort_key f xs = sort_key g xs"
proof (induction xs)
  case Nil
  show ?case by simp
next
  case (Cons a xs)
  then have IH: "sort_key f xs = sort_key g xs" by simp
  have "insort_key f a (sort_key g xs) = insort_key g a (sort_key g xs)"
    by (rule insort_key_cong_set) (simp_all add: Cons.prems)
  with IH show ?case by simp
qed

lemma sortedImports_cong:
  assumes "\<And>n. n \<in> set ns \<Longrightarrow> getGroupType n \<noteq> None \<Longrightarrow> length (sc n) = length (sc' n)"
  shows "sortedImports sc ns = sortedImports sc' ns"
proof -
  have "sort_key (\<lambda>n. length (sc n)) (bucket k ns) = sort_key (\<lambda>n. length (sc' n)) (bucket k ns)"
    for k
    by (rule sort_key_cong_set) (auto simp: bucket_def assms)
  then show ?thesis by (simp add: sortedImports_eq)
qed

lemma assemble_cong:
  "(\<And>n. n \<in> set nodes \<Longrightarrow> sc n = sc' n) \<Longrightarrow> spec_assemble sc prev nodes = spec_assemble sc' prev nodes"
  by (induction nodes arbitrary: prev) (simp_all add: getText_def)

lemma generateFixedCode_cong:
  "(\<And>n. n \<in> set nodes \<Longrightarrow> sc n = sc' n) \<Longrightarrow>
   generateFixedCode nodes sc = generateFixedCode nodes sc'"
  by (simp add: generateFixedCode_eq assemble_cong [of nodes sc sc'])


lemma bucket_removeAll:
  "getGroupType n = None \<Longrightarrow> bucket k (removeAll n ns) = bucket k ns"
  by (auto simp: bucket_def removeAll_filter_not_eq intro: filter_cong)

lemma sortedImports_removeAll:
  "getGroupType n = None \<Longrightarrow> sortedImports sc (removeAll n ns) = sortedImports sc ns"
  by (simp add: sortedImports_eq bucket_removeAll)

subsection \<open>The shape of the sorted list\<close>

lemma Program_Nil: "Program sc [] = []"
  by (simp add: Program_def)

lemma Program_singleton: "getGroupType n \<noteq> None \<Longrightarrow> Program sc [n] = []"
proof -
  assume "getGroupType n \<noteq> None"
  then obtain k where k: "getGroupType n = Some k" by auto
  then have "k = 0 \<or> k = 1 \<or> k = 2 \<or> k = 3 \<or> k = 4"
    using getGroupType_less [of n k] by arith
  with k have "sortedImports sc [n] = [n]"
    by (auto simp: sortedImports_eq bucket_def)
  then show ?thesis by (simp add: Program_def compare_from_same)
qed

lemma sorted_split:
  "sorted (map f xs) \<Longrightarrow> filter (\<lambda>x. f x < m) xs @ filter (\<lambda>x. \<not> f x < m) xs = xs"
  for f :: "'a \<Rightarrow> nat"
proof (induction xs)
  case Nil
  show ?case by simp
next
  case (Cons x xs)
  show ?case
  proof (cases "f x < m")
    case True
    with Cons show ?thesis by simp
  next
    case False
    with Cons.prems have "\<forall>y \<in> set xs. \<not> f y < m" by auto
    then have "filter (\<lambda>x. f x < m) xs = []" "filter (\<lambda>x. \<not> f x < m) xs = xs"
      by (simp_all add: filter_empty_conv)
    with False show ?thesis by simp
  qed
qed

lemma concat_classes:
  fixes f :: "'a \<Rightarrow> nat"
  shows "sorted (map f xs) \<Longrightarrow> \<forall>x \<in> set xs. f x < m \<Longrightarrow>
    concat (map (\<lambda>k. filter (\<lambda>x. f x = k) xs) [0..<m]) = xs"
proof (induction m arbitrary: xs)
  case 0
  then show ?case by (cases xs) auto
next
  case (Suc m)
  let ?lo = "filter (\<lambda>x. f x < m) xs"
  have lo: "concat (map (\<lambda>k. filter (\<lambda>x. f x = k) ?lo) [0..<m]) = ?lo"
    by (rule Suc.IH) (use Suc.prems in \<open>auto simp: sorted_filter\<close>)
  have "filter (\<lambda>x. f x = k) ?lo = filter (\<lambda>x. f x = k) xs" if "k < m" for k
    using that by (auto intro: filter_cong)
  then have eq: "map (\<lambda>k. filter (\<lambda>x. f x = k) ?lo) [0..<m]
      = map (\<lambda>k. filter (\<lambda>x. f x = k) xs) [0..<m]"
    by (intro map_cong) simp_all
  from lo have 1: "concat (map (\<lambda>k. filter (\<lambda>x. f x = k) xs) [0..<m]) = ?lo"
    by (simp only: eq)
  have "filter (\<lambda>x. \<not> f x < m) xs = filter (\<lambda>x. f x = m) xs"
    using Suc.prems(2) by (intro filter_cong) auto
  with sorted_split [OF Suc.prems(1), of m] have "?lo @ filter (\<lambda>x. f x = m) xs = xs" by simp
  with 1 show ?case by simp
qed

lemma sortedImports_canonical:
  assumes cat: "sorted (map (\<lambda>n. the (getGroupType n)) xs)"
    and some: "\<forall>n \<in> set xs. getGroupType n \<noteq> None"
    and len: "\<And>k. sorted (map (\<lambda>n. length (sc n)) (bucket k xs))"
  shows "sortedImports sc xs = xs"
proof -
  let ?f = "\<lambda>n. the (getGroupType n)"
  have b: "bucket k xs = filter (\<lambda>n. ?f n = k) xs" for k
    unfolding bucket_def using some by (intro filter_cong) auto
  have "\<forall>n \<in> set xs. ?f n < 5"
    using some getGroupType_less by auto
  from concat_classes [OF cat this]
  have "concat (map (\<lambda>k. bucket k xs) [0..<5]) = xs" by (simp only: b)
  moreover have "[0..<5] = [0, 1, 2, 3, 4]" by (simp add: upt_rec)
  ultimately show ?thesis
    by (simp add: sortedImports_eq sort_key_id_if_sorted len)
qed

lemma sorted_map_const:
  "(\<And>x. x \<in> set xs \<Longrightarrow> f x = k) \<Longrightarrow> sorted (map f xs)" for f :: "'a \<Rightarrow> nat"
  by (induction xs) auto

lemma canonical_sortedImports:
  "sorted (map (\<lambda>n. the (getGroupType n)) (sortedImports sc ns))"
  "\<forall>n \<in> set (sortedImports sc ns). getGroupType n \<noteq> None"
  "sorted (map (\<lambda>n. length (sc n)) (bucket k (sortedImports sc ns)))"
proof -
  let ?f = "\<lambda>n. the (getGroupType n)"
  let ?G = "\<lambda>k. sort_key (\<lambda>n. length (sc n)) (bucket k ns)"
  have f: "?f n = j" if "n \<in> set (?G j)" for n j
    using that by (simp add: bucket_def)
  have s: "sorted (map ?f (?G j))" for j
    by (rule sorted_map_const [where k = j]) (simp add: bucket_def)
  have "sorted (map ?f (?G 0 @ ?G 1 @ ?G 2 @ ?G 3 @ ?G 4))"
    unfolding map_append sorted_append set_append set_map
    using s f by fastforce
  then show "sorted (map ?f (sortedImports sc ns))"
    by (simp add: sortedImports_eq)
  show "\<forall>n \<in> set (sortedImports sc ns). getGroupType n \<noteq> None"
    by (simp add: set_sortedImports)
  show "sorted (map (\<lambda>n. length (sc n)) (bucket k (sortedImports sc ns)))"
    by (simp add: bucket_sortedImports)
qed

lemma same_shape_maps:
  assumes "list_all2 (\<lambda>m s. getGroupType m = getGroupType s \<and> length (sc' m) = length (sc s)) ms xs"
  shows "map (\<lambda>n. the (getGroupType n)) ms = map (\<lambda>n. the (getGroupType n)) xs"
    and "(\<forall>n \<in> set xs. getGroupType n \<noteq> None) \<longrightarrow> (\<forall>n \<in> set ms. getGroupType n \<noteq> None)"
    and "map (\<lambda>n. length (sc' n)) (bucket k ms) = map (\<lambda>n. length (sc n)) (bucket k xs)"
  using assms by (induction rule: list_all2_induct) (simp_all add: bucket_def)

lemma sortedImports_same_shape:
  assumes "list_all2 (\<lambda>m s. getGroupType m = getGroupType s \<and> length (sc' m) = length (sc s))
      ms (sortedImports sc ns)"
  shows "sortedImports sc' ms = ms"
proof (rule sortedImports_canonical)
  note m = same_shape_maps [OF assms]
  show "sorted (map (\<lambda>n. the (getGroupType n)) ms)"
    by (simp only: m(1) canonical_sortedImports(1))
  show "\<forall>n \<in> set ms. getGroupType n \<noteq> None"
    using m(2) canonical_sortedImports(2) [of sc ns] by blast
  show "sorted (map (\<lambda>n. length (sc' n)) (bucket k ms))" for k
    by (simp only: m(3) canonical_sortedImports(3))
qed

section \<open>The claims\<close>

subsection \<open>Classification\<close>

text \<open>
  Claim C1: an import whose path starts with \<^verbatim>\<open>./\<close> (for example \<^verbatim>\<open>./x\<close>) is
  classified single-dot-relative (group 2), not multi-dot-relative. The code does
  otherwise: the class \<^verbatim>\<open>[^./]\<close> of \<^verbatim>\<open>isSingleDotRelative\<close> rejects the slash after
  the dot, and the optional second dot of \<^verbatim>\<open>isMultiDotRelative\<close> accepts one dot, so
  every such path fails the first predicate, passes the second and is put in group 3.
\<close>

theorem dot_slash_path_is_group_3:
  "\<not> isSingleDotRelative (js ''./'' @ rest)
   \<and> isMultiDotRelative (js ''./'' @ rest)
   \<and> getGroupType (n\<lparr>source_value := js ''./'' @ rest\<rparr>) = Some 3
   \<and> getGroupType stmt_rel = Some 3"
proof -
  have 1: "\<not> isSingleDotRelative (js ''./'' @ r)" for r
    by (simp add: isSingleDotRelative_iff js_def)
  have 2: "isMultiDotRelative (js ''./'' @ r)" for r
    by (simp add: isMultiDotRelative_iff js_def)
  have 3: "\<not> isThirdParty (js ''./'' @ r)" "\<not> isAtImport (js ''./'' @ r)" for r
    by (simp_all add: isThirdParty_iff isAtImport_iff js_def cu_neq)
  have 4: "getGroupType (m\<lparr>source_value := js ''./'' @ r\<rparr>) = Some 3" for m r
    using 1 2 3 by (simp add: getGroupType_def)
  have "stmt_rel = stmt_rel\<lparr>source_value := js ''./'' @ js ''x''\<rparr>"
    by (simp add: stmt_rel_def js_def)
  then have "getGroupType stmt_rel = Some 3"
    using 4 [where m = stmt_rel and r = "js ''x''"] by simp
  with 1 2 4 show ?thesis by simp
qed

text \<open>
  Claim C2, as amended: an import is classified third-party (group 0) if and only if
  its path is not empty and its first code unit is none of \<^verbatim>\<open>.\<close>, \<^verbatim>\<open>/\<close> and
  \<^verbatim>\<open>@\<close>.
\<close>

theorem third_party_iff:
  "getGroupType n = Some 0 \<longleftrightarrow>
     (\<exists>u rest. source_value n = u # rest
        \<and> u \<noteq> cu CHR ''.'' \<and> u \<noteq> cu CHR ''/'' \<and> u \<noteq> cu CHR ''@'')"
proof -
  have "getGroupType n = Some 0 \<longleftrightarrow> isThirdParty (source_value n)"
    by (simp add: getGroupType_def Let_def)
  also have "\<dots> \<longleftrightarrow> (\<exists>u rest. source_value n = u # rest
        \<and> u \<noteq> cu CHR ''.'' \<and> u \<noteq> cu CHR ''/'' \<and> u \<noteq> cu CHR ''@'')"
    by (cases "source_value n") (simp_all add: isThirdParty_iff)
  finally show ?thesis .
qed

text \<open>
  The amended claim on three paths: \<^verbatim>\<open>react\<close> is third-party; \<^verbatim>\<open>/srv/x\<close> and the
  empty path are not.
\<close>

theorem third_party_iff_witness:
  "getGroupType stmt_react = Some 0 \<and> getGroupType stmt_abs \<noteq> Some 0
   \<and> getGroupType (stmt_abs\<lparr>source_value := []\<rparr>) \<noteq> Some 0"
proof -
  have "\<exists>u rest. source_value stmt_react = u # rest
        \<and> u \<noteq> cu CHR ''.'' \<and> u \<noteq> cu CHR ''/'' \<and> u \<noteq> cu CHR ''@''"
    by (simp add: stmt_react_def js_def cu_def)
  then have 1: "getGroupType stmt_react = Some 0" by (simp only: third_party_iff)
  have "\<not> (\<exists>u rest. source_value stmt_abs = u # rest
        \<and> u \<noteq> cu CHR ''.'' \<and> u \<noteq> cu CHR ''/'' \<and> u \<noteq> cu CHR ''@'')"
    by (simp add: stmt_abs_def js_def)
  then have 2: "getGroupType stmt_abs \<noteq> Some 0"
    using third_party_iff [of stmt_abs] by blast
  have 3: "getGroupType (stmt_abs\<lparr>source_value := []\<rparr>) \<noteq> Some 0"
    by (simp add: third_party_iff)
  from 1 2 3 show ?thesis by simp
qed

text \<open>
  The claim as it was stated fails: the path \<^verbatim>\<open>/srv/x\<close> starts with none of
  \<^verbatim>\<open>.\<close>, \<^verbatim>\<open>..\<close> and \<^verbatim>\<open>@\<close>, and is not third-party.
\<close>

theorem third_party_claim_counterexample:
  "\<not> (getGroupType stmt_abs = Some 0 \<longleftrightarrow>
        \<not> prefix (js ''.'') (source_value stmt_abs)
        \<and> \<not> prefix (js ''..'') (source_value stmt_abs)
        \<and> \<not> prefix (js ''@'') (source_value stmt_abs))"
  by code_simp

subsection \<open>Statements without a category\<close>

text \<open>
  Claim C3: an empty import list and a list of one statement are always compliant. The
  code does otherwise on a single statement that no predicate matches: the statement
  is put in no group, the sorted list is empty, the comparison at index 0 differs and
  a report is made whose fix replaces the statement by the empty text.
\<close>

theorem singleton_without_category_reported:
  "Program sc [stmt_abs] =
     [\<lparr>report_node = stmt_abs, message = ''Imports are not sorted correctly.'',
       report_fix = \<lparr>fix_range = (0, 22), fix_text = []\<rparr>\<rparr>]
   \<and> analyze sc [stmt_abs] = Violation []"
proof -
  have g: "getGroupType stmt_abs = None" by code_simp
  then have s: "sortedImports sc [stmt_abs] = []"
    by (simp add: sortedImports_eq bucket_def)
  have t: "generateFixedCode [] sc = []"
    by (simp add: generateFixedCode_eq trim_def)
  have "Program sc [stmt_abs] =
     [\<lparr>report_node = stmt_abs, message = ''Imports are not sorted correctly.'',
       report_fix = \<lparr>fix_range = (0, 22), fix_text = []\<rparr>\<rparr>]"
    by (simp add: Program_find s t at_index_def make_fix_def) (simp add: stmt_abs_def)
  then show ?thesis by (simp add: analyze_def)
qed

text \<open>
  Claim C4: a statement whose path matches none of the four path predicates and that is
  not type-only is placed in no group, and its rendered text does not appear in the
  generated text: the statement is not in the sorted list, the sorted list is the one
  of the input without it, and the generated text is the same whatever the statement's
  rendered text \<open>t\<close> is.
\<close>

theorem statement_without_category_dropped:
  assumes "\<not> isThirdParty (source_value n)" "\<not> isAtImport (source_value n)"
    and "\<not> isSingleDotRelative (source_value n)" "\<not> isMultiDotRelative (source_value n)"
    and "\<not> isTypeImport n"
  shows "(\<forall>g \<in> set (groupImports ns). n \<notin> set g)
    \<and> n \<notin> set (sortedImports sc ns)
    \<and> sortedImports sc (removeAll n ns) = sortedImports sc ns
    \<and> generateFixedCode (sortedImports (sc(n := t)) ns) (sc(n := t))
        = generateFixedCode (sortedImports sc ns) sc"
proof -
  from assms have none: "getGroupType n = None" by (simp add: getGroupType_None_iff)
  have 1: "\<forall>g \<in> set (groupImports ns). n \<notin> set g"
  proof
    fix g
    assume "g \<in> set (groupImports ns)"
    from set_groupImports [OF this] none show "n \<notin> set g" by auto
  qed
  have 2: "n \<notin> set (sortedImports sc ns)"
    using none by (simp add: set_sortedImports)
  have 3: "sortedImports sc (removeAll n ns) = sortedImports sc ns"
    using none by (rule sortedImports_removeAll)
  have "length ((sc(n := t)) m) = length (sc m)" if "getGroupType m \<noteq> None" for m
    using that none by auto
  then have s: "sortedImports (sc(n := t)) ns = sortedImports sc ns"
    by (intro sortedImports_cong)
  have "(sc(n := t)) m = sc m" if "m \<in> set (sortedImports sc ns)" for m
    using that 2 by auto
  then have "generateFixedCode (sortedImports sc ns) (sc(n := t))
      = generateFixedCode (sortedImports sc ns) sc"
    by (intro generateFixedCode_cong)
  then have 4: "generateFixedCode (sortedImports (sc(n := t)) ns) (sc(n := t))
      = generateFixedCode (sortedImports sc ns) sc"
    by (simp only: s)
  from 1 2 3 4 show ?thesis by (intro conjI)
qed

text \<open>
  On the third example the import from \<^verbatim>\<open>/srv/x\<close> is in no group, and the
  generated text is the other import alone.
\<close>

theorem statement_without_category_dropped_witness:
  "stmt_abs \<notin> set (concat (groupImports [stmt_abs, stmt_react]))
   \<and> sortedImports (sliceText absolute_file) [stmt_abs, stmt_react] = [stmt_react]
   \<and> generateFixedCode (sortedImports (sliceText absolute_file) [stmt_abs, stmt_react])
         (sliceText absolute_file) = js ''import r from \"react\"''"
proof -
  have h: "\<not> isThirdParty (source_value stmt_abs)" "\<not> isAtImport (source_value stmt_abs)"
    "\<not> isSingleDotRelative (source_value stmt_abs)"
    "\<not> isMultiDotRelative (source_value stmt_abs)" "\<not> isTypeImport stmt_abs"
    by code_simp+
  note statement_without_category_dropped
    [OF h, of "[stmt_abs, stmt_react]" "sliceText absolute_file" "[]"]
  then have 1: "stmt_abs \<notin> set (concat (groupImports [stmt_abs, stmt_react]))"
    and 2: "sortedImports (sliceText absolute_file) (removeAll stmt_abs [stmt_abs, stmt_react])
       = sortedImports (sliceText absolute_file) [stmt_abs, stmt_react]"
    by auto
  have "removeAll stmt_abs [stmt_abs, stmt_react] = [stmt_react]" by code_simp
  moreover have "sortedImports (sliceText absolute_file) [stmt_react] = [stmt_react]"
    by code_simp
  ultimately
  have 3: "sortedImports (sliceText absolute_file) [stmt_abs, stmt_react] = [stmt_react]"
    using 2 by simp
  have 4: "generateFixedCode [stmt_react] (sliceText absolute_file)
      = js ''import r from \"react\"''"
    by code_simp
  from 1 3 4 show ?thesis by simp
qed

subsection \<open>The canonical order\<close>

text \<open>
  Claim C10: when every statement of the input matches at least one of the five
  predicates, the concatenation of the sorted groups is a permutation of the input:
  each statement occurs in it as often as in the input, and nothing else occurs.
\<close>

theorem canonical_order_permutation:
  assumes "\<forall>n \<in> set ns. isThirdParty (source_value n) \<or> isAtImport (source_value n)
      \<or> isSingleDotRelative (source_value n) \<or> isMultiDotRelative (source_value n)
      \<or> isTypeImport n"
  shows "mset (sortedImports sc ns) = mset ns"
proof -
  from assms have "\<forall>n \<in> set ns. getGroupType n \<noteq> None"
    by (auto simp: getGroupType_None_iff)
  then have "filter (\<lambda>n. getGroupType n \<noteq> None) ns = ns"
    by (intro filter_True) simp
  then show ?thesis by (simp only: mset_sortedImports)
qed

text \<open>
  The three statements of the first example all have a category; the sorted list
  holds the same three.
\<close>

theorem canonical_order_permutation_witness:
  "mset (sortedImports (sliceText scenario_file) [stmt_long, stmt_rel, stmt_scoped])
     = mset [stmt_long, stmt_rel, stmt_scoped]"
proof (rule canonical_order_permutation)
  show "\<forall>n \<in> set [stmt_long, stmt_rel, stmt_scoped].
      isThirdParty (source_value n) \<or> isAtImport (source_value n)
      \<or> isSingleDotRelative (source_value n) \<or> isMultiDotRelative (source_value n)
      \<or> isTypeImport n"
    by code_simp
qed

text \<open>
  Claim C7: two statements of the same category whose rendered texts have the same
  length keep, in the sorted list, the order they have in the input: if one is at index
  \<open>i\<close> and the other at a later index \<open>j\<close> of the input, the first occurs before the
  second in the sorted list, and, the statements of the input being distinct, never
  after it.
\<close>

theorem stability_of_ties:
  assumes "i < j" "j < length ns"
    and "getGroupType (ns ! i) = Some c" "getGroupType (ns ! j) = Some c"
    and "length (getText sc (ns ! i)) = length (getText sc (ns ! j))"
  shows "(\<exists>i' j'. i' < j' \<and> j' < length (sortedImports sc ns)
            \<and> sortedImports sc ns ! i' = ns ! i \<and> sortedImports sc ns ! j' = ns ! j)
       \<and> (distinct ns \<longrightarrow>
            (\<forall>p q. p < length (sortedImports sc ns) \<and> q < length (sortedImports sc ns)
                \<and> sortedImports sc ns ! p = ns ! i \<and> sortedImports sc ns ! q = ns ! j
              \<longrightarrow> p < q))"
proof -
  let ?S = "sortedImports sc ns"
  let ?P = "\<lambda>n. getGroupType n = Some c \<and> length (sc n) = length (sc (ns ! i))"
  have "filter ?P ?S = filter ?P ns" by (rule filter_tie_sortedImports)
  moreover have "?P (ns ! i)" "?P (ns ! j)"
    using assms by (simp_all add: getText_def)
  ultimately have ex: "\<exists>i' j'. i' < j' \<and> j' < length ?S \<and> ?S ! i' = ns ! i \<and> ?S ! j' = ns ! j"
    using assms(1,2) by (intro filter_eq_keeps_order)
  have "p < q" if d: "distinct ns" and pq: "p < length ?S" "q < length ?S"
    "?S ! p = ns ! i" "?S ! q = ns ! j" for p q
  proof -
    from ex obtain i' j' where *: "i' < j'" "j' < length ?S" "?S ! i' = ns ! i" "?S ! j' = ns ! j"
      by blast
    from d have dS: "distinct ?S" by (rule distinct_sortedImports)
    from * have i': "i' < length ?S" by simp
    have "p = i'"
      using nth_eq_iff_index_eq [OF dS pq(1) i'] pq(3) *(3) by simp
    moreover have "q = j'"
      using nth_eq_iff_index_eq [OF dS pq(2) *(2)] pq(4) *(4) by simp
    ultimately show ?thesis using *(1) by simp
  qed
  with ex show ?thesis by blast
qed

text \<open>
  Two third-party imports of length 18, followed by one of length 17: the shorter one
  moves to the front and the two keep their order.
\<close>

theorem stability_of_ties_witness:
  "getGroupType stmt_bb = Some 0 \<and> getGroupType stmt_aa = Some 0
   \<and> length (getText (sliceText ties_file) stmt_bb) = length (getText (sliceText ties_file) stmt_aa)
   \<and> sortedImports (sliceText ties_file) [stmt_bb, stmt_aa, stmt_c] = [stmt_c, stmt_bb, stmt_aa]
   \<and> (\<exists>i' j'. i' < j' \<and> j' < length (sortedImports (sliceText ties_file) [stmt_bb, stmt_aa, stmt_c])
         \<and> sortedImports (sliceText ties_file) [stmt_bb, stmt_aa, stmt_c] ! i' = stmt_bb
         \<and> sortedImports (sliceText ties_file) [stmt_bb, stmt_aa, stmt_c] ! j' = stmt_aa)"
proof -
  let ?sc = "sliceText ties_file"
  let ?ns = "[stmt_bb, stmt_aa, stmt_c]"
  have h: "(0::nat) < 1" "1 < length ?ns" "getGroupType (?ns ! 0) = Some 0"
    "getGroupType (?ns ! 1) = Some 0"
    "length (getText ?sc (?ns ! 0)) = length (getText ?sc (?ns ! 1))"
    by code_simp+
  have s: "sortedImports ?sc ?ns = [stmt_c, stmt_bb, stmt_aa]" by code_simp
  from stability_of_ties [OF h] h(3-5) s show ?thesis by simp
qed

text \<open>
  Claim C5: the sorted list is a fixed point of the reordering, and the handler run on
  it makes no report. The same holds for any list of statements that agrees with the
  sorted list, position by position, in category and in length of rendered text, as
  the statements of the file do once the fix is applied and the file parsed again.
\<close>

theorem canonical_order_fixed_point:
  "sortedImports sc (sortedImports sc ns) = sortedImports sc ns
   \<and> Program sc (sortedImports sc ns) = []
   \<and> analyze sc (sortedImports sc ns) = Compliant
   \<and> (list_all2 (\<lambda>m s. getGroupType m = getGroupType s
                        \<and> length (getText sc' m) = length (getText sc s))
         ms (sortedImports sc ns)
       \<longrightarrow> Program sc' ms = [] \<and> analyze sc' ms = Compliant)"
proof -
  have "Program sc' ms = []"
    if "list_all2 (\<lambda>m s. getGroupType m = getGroupType s \<and> length (sc' m) = length (sc s))
         ms (sortedImports sc ns)"
    using sortedImports_same_shape [OF that] by (simp add: Program_def compare_from_same)
  then show ?thesis
    by (simp add: analyze_def Program_def sortedImports_idem compare_from_same getText_def)
qed

text \<open>
  The sorted list of the first example, the analysis of that list, and the analysis of
  the file that the fix produces.
\<close>

theorem canonical_order_fixed_point_witness:
  "sortedImports (sliceText scenario_file) [stmt_long, stmt_rel, stmt_scoped]
     = [stmt_long, stmt_scoped, stmt_rel]
   \<and> analyze (sliceText scenario_file) [stmt_long, stmt_scoped, stmt_rel] = Compliant
   \<and> map (sliceText fixed_file) [stmt_long, fixed_scoped, fixed_rel]
     = map (sliceText scenario_file) [stmt_long, stmt_scoped, stmt_rel]
   \<and> analyze (sliceText fixed_file) [stmt_long, fixed_scoped, fixed_rel] = Compliant"
proof -
  let ?sc = "sliceText scenario_file"
  let ?ns = "[stmt_long, stmt_rel, stmt_scoped]"
  let ?ms = "[stmt_long, fixed_scoped, fixed_rel]"
  have s: "sortedImports ?sc ?ns = [stmt_long, stmt_scoped, stmt_rel]"
    by code_simp
  have t: "map (sliceText fixed_file) ?ms = map ?sc [stmt_long, stmt_scoped, stmt_rel]"
    by code_simp
  have h: "list_all2 (\<lambda>m s. getGroupType m = getGroupType s
        \<and> length (getText (sliceText fixed_file) m) = length (getText ?sc s))
      ?ms (sortedImports ?sc ?ns)"
    by code_simp
  from canonical_order_fixed_point [of ?sc ?ns "sliceText fixed_file" ?ms] h
  have "analyze ?sc (sortedImports ?sc ?ns) = Compliant"
    and "analyze (sliceText fixed_file) ?ms = Compliant"
    by blast+
  with s t show ?thesis by simp
qed

subsection \<open>The report\<close>

text \<open>
  Claim C6: a report is made if and only if the input differs from the sorted list at
  some index of the input (an index past the end of the sorted list differs); at most
  one report is made, and its node is the statement at the first index that differs.
\<close>

theorem violation_iff_first_mismatch:
  "(Program sc ns \<noteq> [] \<longleftrightarrow>
      (\<exists>i<length ns. at_index (sortedImports sc ns) i \<noteq> Some (ns ! i)))
   \<and> length (Program sc ns) \<le> 1
   \<and> (\<forall>r \<in> set (Program sc ns). \<exists>i<length ns.
         report_node r = ns ! i
         \<and> at_index (sortedImports sc ns) i \<noteq> Some (ns ! i)
         \<and> (\<forall>j<i. at_index (sortedImports sc ns) j = Some (ns ! j)))"
proof (cases "find (\<lambda>j. Some (ns ! j) \<noteq> at_index (sortedImports sc ns) j) [0..<length ns]")
  case None
  then have "Program sc ns = []" by (simp add: Program_find)
  moreover from None have "\<forall>i<length ns. at_index (sortedImports sc ns) i = Some (ns ! i)"
    by (auto simp: find_None_iff)
  ultimately show ?thesis by auto
next
  case (Some i)
  then have P: "Program sc ns = [\<lparr>report_node = ns ! i,
      message = ''Imports are not sorted correctly.'',
      report_fix = make_fix sc ns (sortedImports sc ns)\<rparr>]"
    by (simp add: Program_find)
  from Some have i: "i < length ns" "at_index (sortedImports sc ns) i \<noteq> Some (ns ! i)"
    "\<forall>j<i. at_index (sortedImports sc ns) j = Some (ns ! j)"
    by (auto simp: find_Some_iff)
  show ?thesis
    unfolding P using i by auto
qed

text \<open>
  The first example is out of order at index 1, where the relative import stands; in
  sorted order the same statements give no report.
\<close>

theorem violation_iff_first_mismatch_witness:
  "Program (sliceText scenario_file) [stmt_long, stmt_rel, stmt_scoped] \<noteq> []
   \<and> length (Program (sliceText scenario_file) [stmt_long, stmt_rel, stmt_scoped]) \<le> 1
   \<and> map report_node (Program (sliceText scenario_file) [stmt_long, stmt_rel, stmt_scoped])
       = [stmt_rel]
   \<and> Program (sliceText scenario_file) [stmt_long, stmt_scoped, stmt_rel] = []"
proof -
  let ?sc = "sliceText scenario_file"
  let ?ns = "[stmt_long, stmt_rel, stmt_scoped]"
  let ?ok = "[stmt_long, stmt_scoped, stmt_rel]"
  have "at_index (sortedImports ?sc ?ns) 1 \<noteq> Some (?ns ! 1)" by code_simp
  then have "\<exists>i<length ?ns. at_index (sortedImports ?sc ?ns) i \<noteq> Some (?ns ! i)"
    by (intro exI [of _ 1]) simp
  with violation_iff_first_mismatch [of ?sc ?ns] have 1: "Program ?sc ?ns \<noteq> []" and 2: "length (Program ?sc ?ns) \<le> 1"
    by blast+
  have 3: "map report_node (Program ?sc ?ns) = [stmt_rel]" by code_simp
  have "at_index (sortedImports ?sc ?ok) i = Some (?ok ! i)" if "i < length ?ok" for i
  proof -
    from that have "i = 0 \<or> i = 1 \<or> i = 2" by auto
    moreover have "at_index (sortedImports ?sc ?ok) 0 = Some (?ok ! 0)"
      "at_index (sortedImports ?sc ?ok) 1 = Some (?ok ! 1)"
      "at_index (sortedImports ?sc ?ok) 2 = Some (?ok ! 2)"
      by code_simp+
    ultimately show ?thesis by blast
  qed
  with violation_iff_first_mismatch [of ?sc ?ok] have 4: "Program ?sc ?ok = []" by blast
  from 1 2 3 4 show ?thesis by (intro conjI)
qed

text \<open>
  Claim C9: the fix of a report replaces the range from the start of the first import
  declaration to the end of the last one, by the text generated from the sorted list.
  Applied to a file that reaches the start of that range, it leaves the text before the
  range and the text after it as they were.
\<close>

theorem fix_replaces_import_block:
  assumes "r \<in> set (Program sc ns)"
  shows "ns \<noteq> []
    \<and> fix_range (report_fix r) = (fst (node_range (hd ns)), snd (node_range (last ns)))
    \<and> fix_text (report_fix r) = generateFixedCode (sortedImports sc ns) sc
    \<and> (\<forall>text. fst (node_range (hd ns)) \<le> length text \<longrightarrow>
          take (fst (node_range (hd ns))) (applyFix (report_fix r) text)
            = take (fst (node_range (hd ns))) text
          \<and> drop (fst (node_range (hd ns)) + length (fix_text (report_fix r)))
              (applyFix (report_fix r) text)
            = drop (snd (node_range (last ns))) text)"
proof -
  from Program_reportD [OF assms]
  have ne: "ns \<noteq> []" and f: "report_fix r = make_fix sc ns (sortedImports sc ns)" by simp_all
  have rng: "fix_range (report_fix r) = (fst (node_range (hd ns)), snd (node_range (last ns)))"
    by (simp add: f make_fix_range ne)
  have tx: "fix_text (report_fix r) = generateFixedCode (sortedImports sc ns) sc"
    by (simp add: f make_fix_def Let_def)
  show ?thesis
    by (simp add: ne rng tx applyFix_def min_def)
qed

text \<open>
  On the first example the range is from offset 7 to offset 86; the comment line
  before it and the code after it are kept.
\<close>

theorem fix_replaces_import_block_witness:
  "Program (sliceText scenario_file) [stmt_long, stmt_rel, stmt_scoped] = [scenario_report]
   \<and> fix_range (report_fix scenario_report) = (7, 86)
   \<and> take 7 (applyFix (report_fix scenario_report) scenario_file) = js ''// app'' @ [LF]
   \<and> drop (7 + length (fix_text (report_fix scenario_report)))
        (applyFix (report_fix scenario_report) scenario_file) = [LF] @ js ''z(a, B);''
   \<and> applyFix (report_fix scenario_report) scenario_file =
        js ''// app'' @ [LF] @
        js ''import z from \"longmodulename\"'' @ [LF, LF] @
        js ''import {B} from \"@scope/pkg\"'' @ [LF, LF] @
        js ''import a from \"./x\"'' @ [LF] @
        js ''z(a, B);''"
proof -
  let ?sc = "sliceText scenario_file"
  let ?ns = "[stmt_long, stmt_rel, stmt_scoped]"
  have P: "Program ?sc ?ns = [scenario_report]" by code_simp
  then have "scenario_report \<in> set (Program ?sc ?ns)" by simp
  from fix_replaces_import_block [OF this]
  have a: "fix_range (report_fix scenario_report)
      = (fst (node_range (hd ?ns)), snd (node_range (last ?ns)))"
    and b: "fst (node_range (hd ?ns)) \<le> length scenario_file \<longrightarrow>
      take (fst (node_range (hd ?ns))) (applyFix (report_fix scenario_report) scenario_file)
        = take (fst (node_range (hd ?ns))) scenario_file
      \<and> drop (fst (node_range (hd ?ns)) + length (fix_text (report_fix scenario_report)))
          (applyFix (report_fix scenario_report) scenario_file)
        = drop (snd (node_range (last ?ns))) scenario_file"
    by blast+
  have r: "fst (node_range (hd ?ns)) = 7" "snd (node_range (last ?ns)) = 86"
    "(7::nat) \<le> length scenario_file"
    by code_simp+
  from a r have 1: "fix_range (report_fix scenario_report) = (7, 86)" by simp
  from b r
  have 2: "take 7 (applyFix (report_fix scenario_report) scenario_file) = take 7 scenario_file"
    and 3: "drop (7 + length (fix_text (report_fix scenario_report)))
        (applyFix (report_fix scenario_report) scenario_file) = drop 86 scenario_file"
    by simp_all
  have 4: "take 7 scenario_file = js ''// app'' @ [LF]"
    "drop 86 scenario_file = [LF] @ js ''z(a, B);''"
    by code_simp+
  have 5: "applyFix (report_fix scenario_report) scenario_file =
        js ''// app'' @ [LF] @
        js ''import z from \"longmodulename\"'' @ [LF, LF] @
        js ''import {B} from \"@scope/pkg\"'' @ [LF, LF] @
        js ''import a from \"./x\"'' @ [LF] @
        js ''z(a, B);''"
    by code_simp
  from P 1 2 3 4 5 show ?thesis by (simp only:)
qed

subsection \<open>The generated text\<close>

text \<open>
  Claim C8: the generated text is the trimmed assembly of the statements: every
  rendered text followed by a line break, one blank line before a statement whose
  category differs from that of the statement before it, none between statements of one
  category and none before the first. After trimming, the text does not end in white
  space or a line break; and when the first rendered text does not start with white
  space and the last does not end with it, as the text of an import declaration never
  does, trimming removes the final line break and nothing else.
\<close>

theorem generateFixedCode_layout:
  "generateFixedCode nodes sc = trim (spec_assemble sc None nodes)
   \<and> (generateFixedCode nodes sc = [] \<or> \<not> trimmable (last (generateFixedCode nodes sc)))
   \<and> (nodes \<noteq> []
        \<and> getText sc (hd nodes) \<noteq> [] \<and> \<not> trimmable (hd (getText sc (hd nodes)))
        \<and> getText sc (last nodes) \<noteq> [] \<and> \<not> trimmable (last (getText sc (last nodes)))
      \<longrightarrow> generateFixedCode nodes sc = butlast (spec_assemble sc None nodes))"
  using trim_no_trailing [of "spec_assemble sc None nodes"]
  by (simp add: generateFixedCode_eq [symmetric] generateFixedCode_butlast)

text \<open>
  A third-party import followed by a relative one: one blank line between the two
  and no line break at the end. Two third-party imports: no blank line.
\<close>

theorem generateFixedCode_layout_witness:
  "spec_assemble (sliceText scenario_file) None [stmt_long, stmt_rel] =
     js ''import z from \"longmodulename\"'' @ [LF] @ [LF] @ js ''import a from \"./x\"'' @ [LF]
   \<and> generateFixedCode [stmt_long, stmt_rel] (sliceText scenario_file) =
     js ''import z from \"longmodulename\"'' @ [LF] @ [LF] @ js ''import a from \"./x\"''
   \<and> generateFixedCode [stmt_bb, stmt_aa] (sliceText ties_file) =
     js ''import b from \"bb\"'' @ [LF] @ js ''import a from \"aa\"''"
proof -
  let ?sc = "sliceText scenario_file"
  let ?ns = "[stmt_long, stmt_rel]"
  have h: "?ns \<noteq> []
      \<and> getText ?sc (hd ?ns) \<noteq> [] \<and> \<not> trimmable (hd (getText ?sc (hd ?ns)))
      \<and> getText ?sc (last ?ns) \<noteq> [] \<and> \<not> trimmable (last (getText ?sc (last ?ns)))"
    by code_simp
  have 1: "spec_assemble ?sc None ?ns =
     js ''import z from \"longmodulename\"'' @ [LF] @ [LF] @ js ''import a from \"./x\"'' @ [LF]"
    by code_simp
  have 2: "butlast (js ''import z from \"longmodulename\"'' @ [LF] @ [LF]
        @ js ''import a from \"./x\"'' @ [LF]) =
     js ''import z from \"longmodulename\"'' @ [LF] @ [LF] @ js ''import a from \"./x\"''"
    by code_simp
  have 3: "trim (spec_assemble (sliceText ties_file) None [stmt_bb, stmt_aa]) =
     js ''import b from \"bb\"'' @ [LF] @ js ''import a from \"aa\"''"
    by code_simp
  from generateFixedCode_layout [of ?ns ?sc] h
  have "generateFixedCode ?ns ?sc = butlast (spec_assemble ?sc None ?ns)"
    by blast
  moreover from generateFixedCode_layout [of "[stmt_bb, stmt_aa]" "sliceText ties_file"]
  have "generateFixedCode [stmt_bb, stmt_aa] (sliceText ties_file) =
      trim (spec_assemble (sliceText ties_file) None [stmt_bb, stmt_aa])"
    by blast
  ultimately show ?thesis by (simp only: 1 2 3)
qed

end
